theory Spec2Isabelle
  imports Main "HOL-Library.Sublist" "HOL-Library.AList"
begin

section \<open>JavaScript strings\<close>

text \<open>
  Strings are lists of characters. \<open>s.indexOf(pat)\<close> gives the position of the first
  occurrence (\<open>None\<close> stands for \<open>-1\<close>), \<open>s.slice(n)\<close> is \<open>drop n s\<close>.
\<close>

fun indexOf :: "string \<Rightarrow> string \<Rightarrow> nat option" where
  "indexOf [] pat = (if pat = [] then Some 0 else None)"
| "indexOf (c # cs) pat =
     (if prefix pat (c # cs) then Some 0 else map_option Suc (indexOf cs pat))"

text \<open>
  \<open>s.replace(searchValue, replaceValue)\<close> with a string \<open>searchValue\<close> rewrites the first occurrence only, and
  reads the replacement as a template: \<open>$$\<close> is a dollar sign, \<open>$&\<close> the matched text,
  \<open>$\<close> followed by a backtick the text before the match, \<open>$'\<close> the text after it. There
  are no capture groups, so every other \<open>$\<close> stands for itself.
\<close>

fun getSubstitution :: "string \<Rightarrow> string \<Rightarrow> string \<Rightarrow> string \<Rightarrow> string" where
  "getSubstitution matched preceding following [] = []"
| "getSubstitution matched preceding following [c] = [c]"
| "getSubstitution matched preceding following (c # d # cs) =
     (if c = CHR ''$'' \<and> d = CHR ''$'' then CHR ''$'' # getSubstitution matched preceding following cs
      else if c = CHR ''$'' \<and> d = CHR ''&'' then matched @ getSubstitution matched preceding following cs
      else if c = CHR ''$'' \<and> d = CHR 0x60 then preceding @ getSubstitution matched preceding following cs
      else if c = CHR ''$'' \<and> d = CHR 0x27 then following @ getSubstitution matched preceding following cs
      else c # getSubstitution matched preceding following (d # cs))"

definition string_replace :: "string \<Rightarrow> string \<Rightarrow> string \<Rightarrow> string" where
  "string_replace s searchValue replaceValue =
     (case indexOf s searchValue of
        None \<Rightarrow> s
      | Some i \<Rightarrow>
          (let preceding = take i s; following = drop (i + length searchValue) s
           in preceding @ getSubstitution searchValue preceding following replaceValue @ following))"

text \<open>\<open>s.replace(/\\/g, '/')\<close>: every backslash becomes a forward slash.\<close>

definition backslashes_to_slashes :: "string \<Rightarrow> string" where
  "backslashes_to_slashes s = map (\<lambda>c. if c = CHR 0x5C then CHR ''/'' else c) s"

fun join_with :: "string \<Rightarrow> string list \<Rightarrow> string" where
  "join_with sep [] = []"
| "join_with sep [x] = x"
| "join_with sep (x # y # ys) = x @ sep @ join_with sep (y # ys)"

section \<open>The path module of Node.js (POSIX)\<close>

text \<open>
  The plugin calls \<open>path.dirname\<close>, \<open>path.basename\<close>, \<open>path.extname\<close> and \<open>path.join\<close> of
  the Node.js runtime. They are modelled as the runtime's POSIX implementation computes
  them: the three scans run from the last character to the first, exactly as the loops of
  the runtime do; \<open>normalizeString\<close> is given by its effect on the segments between the
  separators.
\<close>

fun dirname_scan :: "string \<Rightarrow> nat \<Rightarrow> bool \<Rightarrow> nat option" where
  "dirname_scan p 0 matchedSlash = None"
| "dirname_scan p (Suc j) matchedSlash =
     (if p ! Suc j = CHR ''/''
      then (if \<not> matchedSlash then Some (Suc j) else dirname_scan p j matchedSlash)
      else dirname_scan p j False)"

definition dirname :: "string \<Rightarrow> string" where
  "dirname p =
     (if p = [] then ''.''
      else (case dirname_scan p (length p - 1) True of
              None \<Rightarrow> if hd p = CHR ''/'' then ''/'' else ''.''
            | Some e \<Rightarrow> if hd p = CHR ''/'' \<and> e = 1 then ''//'' else take e p))"

text \<open>
  \<open>extname_scan p n\<close> has the characters at the positions \<open>n - 1, \<dots>, 0\<close> left to read. It
  returns \<open>startDot\<close>, \<open>startPart\<close>, \<open>end\<close> and \<open>preDotState\<close> (\<open>None\<close> for \<open>-1\<close>).
\<close>

fun extname_scan ::
  "string \<Rightarrow> nat \<Rightarrow> nat option \<Rightarrow> nat option \<Rightarrow> bool \<Rightarrow> int \<Rightarrow> nat option \<times> nat \<times> nat option \<times> int"
where
  "extname_scan p 0 startDot endp matchedSlash preDotState = (startDot, 0, endp, preDotState)"
| "extname_scan p (Suc i) startDot endp matchedSlash preDotState =
     (if p ! i = CHR ''/'' then
        (if \<not> matchedSlash then (startDot, Suc i, endp, preDotState)
         else extname_scan p i startDot endp matchedSlash preDotState)
      else
        (let endp' = (if endp = None then Some (Suc i) else endp);
             matchedSlash' = (if endp = None then False else matchedSlash)
         in if p ! i = CHR ''.'' then
              (if startDot = None then extname_scan p i (Some i) endp' matchedSlash' preDotState
               else extname_scan p i startDot endp' matchedSlash' 1)
            else if startDot \<noteq> None then extname_scan p i startDot endp' matchedSlash' (- 1)
            else extname_scan p i startDot endp' matchedSlash' preDotState))"

definition extname :: "string \<Rightarrow> string" where
  "extname p =
     (case extname_scan p (length p) None None True 0 of
        (Some startDot, startPart, Some endp, preDotState) \<Rightarrow>
          if preDotState = 0 \<or> (preDotState = 1 \<and> startDot = endp - 1 \<and> startDot = startPart + 1)
          then []
          else take (endp - startDot) (drop startDot p)
      | _ \<Rightarrow> [])"

text \<open>\<open>path.basename(p)\<close> without a suffix: the scan returns \<open>start\<close> and \<open>end\<close>.\<close>

fun basename_scan :: "string \<Rightarrow> nat \<Rightarrow> nat option \<Rightarrow> bool \<Rightarrow> nat \<times> nat option" where
  "basename_scan p 0 endp matchedSlash = (0, endp)"
| "basename_scan p (Suc i) endp matchedSlash =
     (if p ! i = CHR ''/'' then
        (if \<not> matchedSlash then (Suc i, endp) else basename_scan p i endp matchedSlash)
      else if endp = None then basename_scan p i (Some (Suc i)) False
      else basename_scan p i endp matchedSlash)"

text \<open>
  \<open>path.basename(p, suffix)\<close> with a suffix that is not empty and not longer than the
  path: the scan matches the suffix from its last character (\<open>extIdx\<close>) and returns
  \<open>start\<close>, \<open>end\<close> and \<open>firstNonSlashEnd\<close>.
\<close>

fun basename_suffix_scan ::
  "string \<Rightarrow> string \<Rightarrow> nat \<Rightarrow> nat option \<Rightarrow> bool \<Rightarrow> nat option \<Rightarrow> nat option
     \<Rightarrow> nat \<times> nat option \<times> nat option"
where
  "basename_suffix_scan p ext 0 endp matchedSlash extIdx firstNonSlashEnd =
     (0, endp, firstNonSlashEnd)"
| "basename_suffix_scan p ext (Suc i) endp matchedSlash extIdx firstNonSlashEnd =
     (if p ! i = CHR ''/'' then
        (if \<not> matchedSlash then (Suc i, endp, firstNonSlashEnd)
         else basename_suffix_scan p ext i endp matchedSlash extIdx firstNonSlashEnd)
      else
        (let matchedSlash' = (if firstNonSlashEnd = None then False else matchedSlash);
             first' = (if firstNonSlashEnd = None then Some (Suc i) else firstNonSlashEnd)
         in case extIdx of
              None \<Rightarrow> basename_suffix_scan p ext i endp matchedSlash' None first'
            | Some k \<Rightarrow>
                if p ! i = ext ! k then
                  (if k = 0 then basename_suffix_scan p ext i (Some i) matchedSlash' None first'
                   else basename_suffix_scan p ext i endp matchedSlash' (Some (k - 1)) first')
                else basename_suffix_scan p ext i first' matchedSlash' None first'))"

definition basename :: "string \<Rightarrow> string \<Rightarrow> string" where
  "basename p ext =
     (if ext \<noteq> [] \<and> length ext \<le> length p then
        (if ext = p then []
         else (case basename_suffix_scan p ext (length p) None True
                      (Some (length ext - 1)) None of
                 (start, endp, firstNonSlashEnd) \<Rightarrow>
                   (let endp' = (if Some start = endp then firstNonSlashEnd
                                 else if endp = None then Some (length p) else endp)
                    in case endp' of
                         None \<Rightarrow> drop start p
                       | Some e \<Rightarrow> take (e - start) (drop start p))))
      else (case basename_scan p (length p) None True of
              (start, None) \<Rightarrow> []
            | (start, Some e) \<Rightarrow> take (e - start) (drop start p)))"

fun split_slash :: "string \<Rightarrow> string list" where
  "split_slash [] = [[]]"
| "split_slash (c # cs) =
     (if c = CHR ''/'' then [] # split_slash cs
      else (case split_slash cs of
              [] \<Rightarrow> [[c]]
            | seg # segs \<Rightarrow> (c # seg) # segs))"

text \<open>
  One segment of \<open>normalizeString\<close>: an empty segment and \<open>.\<close> are dropped, \<open>..\<close> removes the
  segment before it unless there is none or it is \<open>..\<close> itself (then \<open>..\<close> is kept when the
  path is relative), every other segment is appended.
\<close>

definition normalize_segment :: "bool \<Rightarrow> string list \<Rightarrow> string \<Rightarrow> string list" where
  "normalize_segment allowAboveRoot res seg =
     (if seg = [] \<or> seg = ''.'' then res
      else if seg = ''..'' then
        (if res \<noteq> [] \<and> last res \<noteq> ''..'' then butlast res
         else if allowAboveRoot then res @ [''..''] else res)
      else res @ [seg])"

definition normalizeString :: "string \<Rightarrow> bool \<Rightarrow> string" where
  "normalizeString p allowAboveRoot =
     join_with ''/'' (foldl (normalize_segment allowAboveRoot) [] (split_slash p))"

definition path_normalize :: "string \<Rightarrow> string" where
  "path_normalize p =
     (if p = [] then ''.''
      else (let isAbsolute = (hd p = CHR ''/'');
                trailingSeparator = (last p = CHR ''/'');
                q = normalizeString p (\<not> isAbsolute)
            in if q = [] then (if isAbsolute then ''/'' else if trailingSeparator then ''./'' else ''.'')
               else (let q' = (if trailingSeparator then q @ ''/'' else q)
                     in if isAbsolute then CHR ''/'' # q' else q')))"

definition path_join :: "string list \<Rightarrow> string" where
  "path_join args =
     (let joined = filter (\<lambda>arg. arg \<noteq> []) args
      in if joined = [] then ''.'' else path_normalize (join_with ''/'' joined))"

section \<open>The helpers of the plugin\<close>

definition html :: "string \<Rightarrow> bool" where
  "html str = (extname str = ''.html'')"

definition resolve :: "string \<Rightarrow> string" where
  "resolve str =
     (let base = basename str (extname str);
          ret = dirname str
      in if base \<noteq> ''index'' then backslashes_to_slashes (path_join [ret, base]) else ret)"

text \<open>
  The first lines of \<open>family\<close> and \<open>folder\<close>: the directory of the file, with the empty
  string for \<open>.\<close>.
\<close>

definition file_dir :: "string \<Rightarrow> string" where
  "file_dir file = (if dirname file = ''.'' then [] else dirname file)"

text \<open>
  A JavaScript object is the list of its entries in the order of insertion, each key
  once. Writing a property replaces the value of an existing key in place and appends a
  new key (\<open>AList.update\<close>), \<open>delete\<close> removes the entry (\<open>AList.delete\<close>), reading is
  \<open>map_of\<close>. The keys here are file paths and field names, not array indices, so that the
  order of insertion is the order of \<open>Object.keys\<close> and of \<open>for \<dots> in\<close>. Reading a key gives
  an own property: what an object inherits from \<open>Object.prototype\<close> is left out.
\<close>

definition family :: "string \<Rightarrow> (string \<times> 'd) list \<Rightarrow> (string \<times> 'd) list" where
  "family file files =
     (let dir = file_dir file
      in foldl (\<lambda>ret (key, d).
                  if key = file then ret
                  else if indexOf key dir \<noteq> Some 0 then ret
                  else if html key then ret
                  else AList.update (drop (length dir) key) d ret)
           [] files)"

definition folder :: "string \<Rightarrow> (string \<times> 'd) list \<Rightarrow> (string \<times> 'd) list" where
  "folder file files =
     (let bn = basename file (extname file);
          dir = file_dir file;
          sharedPath = path_join [dir, bn, ''/'']
      in foldl (\<lambda>fam (otherFile, d).
                  if otherFile = file then fam
                  else if indexOf otherFile sharedPath \<noteq> Some 0 then fam
                  else if html otherFile then fam
                  else AList.update (drop (length sharedPath) otherFile) d fam)
           [] files)"

section \<open>JavaScript values and documents\<close>

text \<open>
  The values a metadata field or a \<open>match\<close> entry can hold. Numbers are the integers;
  \<open>JDate\<close> carries the time stamp of a \<open>Date\<close>, \<open>JBuffer\<close> the text of a \<open>Buffer\<close>.
\<close>

datatype jsval =
    JUndefined
  | JNull
  | JBool bool
  | JNum int
  | JStr string
  | JArr "jsval list"
  | JDate int
  | JBuffer string

fun truthy :: "jsval \<Rightarrow> bool" where
  "truthy JUndefined = False"
| "truthy JNull = False"
| "truthy (JBool b) = b"
| "truthy (JNum n) = (n \<noteq> 0)"
| "truthy (JStr s) = (s \<noteq> [])"
| "truthy (JArr xs) = True"
| "truthy (JDate t) = True"
| "truthy (JBuffer s) = True"

fun nat_to_string :: "nat \<Rightarrow> string" where
  "nat_to_string n =
     (if n < 10 then [char_of (48 + n)]
      else nat_to_string (n div 10) @ [char_of (48 + n mod 10)])"

declare nat_to_string.simps [simp del]

definition int_to_string :: "int \<Rightarrow> string" where
  "int_to_string i = (if i < 0 then CHR ''-'' # nat_to_string (nat (- i)) else nat_to_string (nat i))"

text \<open>
  \<open>ToString\<close>, which \<open>val.toString()\<close> and \<open>String.prototype.includes\<close> apply. The text of
  a \<open>Date\<close> depends on the time zone of the host and is a parameter.
\<close>

fun to_string :: "(int \<Rightarrow> string) \<Rightarrow> jsval \<Rightarrow> string" where
  "to_string dateString JUndefined = ''undefined''"
| "to_string dateString JNull = ''null''"
| "to_string dateString (JBool b) = (if b then ''true'' else ''false'')"
| "to_string dateString (JNum n) = int_to_string n"
| "to_string dateString (JStr s) = s"
| "to_string dateString (JArr xs) =
     join_with '','' (map (\<lambda>x. if x = JUndefined \<or> x = JNull then [] else to_string dateString x) xs)"
| "to_string dateString (JDate t) = dateString t"
| "to_string dateString (JBuffer s) = s"

text \<open>
  \<open>a === b\<close> and the comparison of \<open>Array.prototype.includes\<close>: primitive values are
  compared by value; an array, a date or a buffer is equal only to itself, and a value of
  the configuration is never the same object as a value of a document.
\<close>

fun strict_equals :: "jsval \<Rightarrow> jsval \<Rightarrow> bool" where
  "strict_equals (JArr xs) b = False"
| "strict_equals (JDate t) b = False"
| "strict_equals (JBuffer s) b = False"
| "strict_equals a b = (a = b)"

datatype permalink_field = PermalinkAbsent | PermalinkFalse | PermalinkString string

text \<open>
  A document (the value of one key of the file set): its \<open>contents\<close>, the \<open>path\<close> the
  plugin writes, the \<open>permalink\<close> override (absent, \<open>false\<close> or a string) and its other
  metadata fields.
\<close>

record doc =
  contents :: string
  path :: "string option"
  permalink :: permalink_field
  metadata :: "(string \<times> jsval) list"

text \<open>\<open>data[key]\<close>: the own properties of the document.\<close>

definition doc_get :: "doc \<Rightarrow> string \<Rightarrow> jsval" where
  "doc_get data key =
     (if key = ''contents'' then JBuffer (contents data)
      else if key = ''path'' then (case path data of None \<Rightarrow> JUndefined | Some s \<Rightarrow> JStr s)
      else if key = ''permalink'' then
        (case permalink data of
           PermalinkAbsent \<Rightarrow> JUndefined
         | PermalinkFalse \<Rightarrow> JBool False
         | PermalinkString s \<Rightarrow> JStr s)
      else (case map_of (metadata data) key of None \<Rightarrow> JUndefined | Some v \<Rightarrow> v))"

type_synonym files = "(string \<times> doc) list"

section \<open>Options and linksets\<close>

datatype relative_option = RelativeTrue | RelativeFolder | RelativeFalse

datatype date_option = DateString string | DateFunction "int \<Rightarrow> string"

datatype slug_option = SlugFunction "string \<Rightarrow> string" | SlugOptions "(string \<times> jsval) list"

text \<open>
  The properties that \<open>replace\<close> and the orchestrator read from the effective linkset;
  \<open>None\<close> is a property the object does not have. A linkset adds \<open>match\<close> and
  \<open>isDefault\<close>, the options add the global settings. \<open>unique\<close> is a boolean here: a
  caller-supplied uniqueness function is not modelled.
\<close>

record linkset_fields =
  pattern :: "string option"
  date :: "date_option option"
  slug :: "slug_option option"
  relative :: "relative_option option"

record linkset = linkset_fields +
  match :: "(string \<times> jsval) list"
  isDefault :: bool

record options = linkset_fields +
  indexFile :: "string option"
  unique :: bool
  duplicatesFail :: bool
  linksets :: "linkset list"

text \<open>
  The libraries the plugin requires: \<open>slugify\<close>, the formatter of \<open>moment\<close>,
  \<open>substitute\<close>, and the text of a date.
\<close>

record env =
  slugify :: "string \<Rightarrow> (string \<times> jsval) list \<Rightarrow> string"
  moment_format :: "string \<Rightarrow> int \<Rightarrow> string"
  substitute :: "string \<Rightarrow> (string \<times> string) list \<Rightarrow> string"
  date_string :: "int \<Rightarrow> string"

definition object_assign :: "(string \<times> 'v) list \<Rightarrow> (string \<times> 'v) list \<Rightarrow> (string \<times> 'v) list" where
  "object_assign target source = foldl (\<lambda>obj (k, v). AList.update k v obj) target source"

text \<open>
  \<open>slug(text, options)\<close>. The \<open>extend\<close> entry changes the symbol table of the library for
  the whole process; that table is part of \<open>slugify\<close> here.
\<close>

definition slug_text :: "env \<Rightarrow> string \<Rightarrow> (string \<times> jsval) list \<Rightarrow> string" where
  "slug_text e text opts = slugify e text (object_assign [(''lower'', JBool True)] opts)"

datatype options_argument = OptionsMissing | OptionsString string | OptionsObject options

definition normalize_options :: "env \<Rightarrow> options_argument \<Rightarrow> options" where
  "normalize_options e arg =
     (let opts = (case arg of
                    OptionsString s \<Rightarrow>
                      \<lparr>pattern = Some s, date = None, slug = None, relative = None,
                       indexFile = None, unique = False, duplicatesFail = False, linksets = []\<rparr>
                  | OptionsMissing \<Rightarrow>
                      \<lparr>pattern = None, date = None, slug = None, relative = None,
                       indexFile = None, unique = False, duplicatesFail = False, linksets = []\<rparr>
                  | OptionsObject obj \<Rightarrow> obj)
      in opts\<lparr>date := Some (DateFunction
                 (case date opts of
                    Some (DateString s) \<Rightarrow> moment_format e s
                  | _ \<Rightarrow> moment_format e ''YYYY/MM/DD'')),
              relative := (case relative opts of None \<Rightarrow> Some RelativeTrue | Some r \<Rightarrow> Some r)\<rparr>)"

section \<open>Pattern resolution\<close>

definition is_word_char :: "char \<Rightarrow> bool" where
  "is_word_char c =
     (let n = (of_char c :: nat)
      in (48 \<le> n \<and> n \<le> 57) \<or> (65 \<le> n \<and> n \<le> 90) \<or> n = 95 \<or> (97 \<le> n \<and> n \<le> 122))"

text \<open>The matches of \<open>/:(\w+)/g\<close>, from left to right.\<close>

function params :: "string \<Rightarrow> string list" where
  "params [] = []"
| "params (c # cs) =
     (if c = CHR '':'' \<and> takeWhile is_word_char cs \<noteq> []
      then takeWhile is_word_char cs # params (dropWhile is_word_char cs)
      else params cs)"
  by pat_completeness auto
termination
  by (relation "measure length") (auto simp: le_imp_less_Suc length_dropWhile_le)

datatype error = TypeError

text \<open>
  The loop of \<open>replace\<close> over the keys. Calling \<open>options.date\<close> raises a \<open>TypeError\<close> when
  the effective linkset has no function there.
\<close>

fun replace_keys ::
  "env \<Rightarrow> 'a linkset_fields_scheme \<Rightarrow> doc \<Rightarrow> string list \<Rightarrow> (string \<times> string) list
     \<Rightarrow> error + (string \<times> string) list option"
where
  "replace_keys e opts data [] ret = Inr (Some ret)"
| "replace_keys e opts data (key # keys) ret =
     (let val = doc_get data key
      in if \<not> truthy val \<or> val = JArr [] then Inr None
         else (case val of
                 JDate t \<Rightarrow>
                   (case date opts of
                      Some (DateFunction f) \<Rightarrow> replace_keys e opts data keys (AList.update key (f t) ret)
                    | _ \<Rightarrow> Inl TypeError)
               | _ \<Rightarrow>
                   replace_keys e opts data keys
                     (AList.update key
                        (case slug opts of
                           Some (SlugFunction f) \<Rightarrow> f (to_string (date_string e) val)
                         | Some (SlugOptions so) \<Rightarrow> slug_text e (to_string (date_string e) val) so
                         | None \<Rightarrow> slug_text e (to_string (date_string e) val) [])
                        ret)))"

definition replace ::
  "env \<Rightarrow> string option \<Rightarrow> doc \<Rightarrow> 'a linkset_fields_scheme \<Rightarrow> error + string option"
where
  "replace e pat data opts =
     (case pat of
        None \<Rightarrow> Inr None
      | Some p \<Rightarrow>
          if p = [] then Inr None
          else (case replace_keys e opts data (params p) [] of
                  Inl err \<Rightarrow> Inl err
                | Inr None \<Rightarrow> Inr None
                | Inr (Some ret) \<Rightarrow> Inr (Some (substitute e p ret))))"

section \<open>Relinking\<close>

definition relink :: "doc \<Rightarrow> (string \<times> string) list \<Rightarrow> doc" where
  "relink data moved =
     data\<lparr>contents :=
            foldl (\<lambda>content (to, from). string_replace content from to) (contents data) moved\<rparr>"

section \<open>Selecting the linkset\<close>

text \<open>
  One key of \<open>ls.match\<close> in \<open>findLinkset\<close>: the field is strictly equal to the expected
  value, or it is a truthy value with an \<open>indexOf\<close> method (a string, an array, a buffer)
  that \<open>includes\<close> the expected value. \<open>Buffer.prototype.includes\<close> raises a \<open>TypeError\<close>
  for an operand that is not a string, a number or a buffer.
\<close>

definition match_key :: "env \<Rightarrow> doc \<Rightarrow> string \<times> jsval \<Rightarrow> error + bool" where
  "match_key e file kv =
     (let actual = doc_get file (fst kv); expected = snd kv
      in if strict_equals actual expected then Inr True
         else (case actual of
                 JStr s \<Rightarrow>
                   if s = [] then Inr False
                   else Inr (indexOf s (to_string (date_string e) expected) \<noteq> None)
               | JArr xs \<Rightarrow> Inr (list_ex (\<lambda>x. strict_equals x expected) xs)
               | JBuffer s \<Rightarrow>
                   (case expected of
                      JStr t \<Rightarrow> Inr (indexOf s t \<noteq> None)
                    | JBuffer t \<Rightarrow> Inr (indexOf s t \<noteq> None)
                    | JNum n \<Rightarrow> Inr (char_of (n mod 256) \<in> set s)
                    | _ \<Rightarrow> Inl TypeError)
               | _ \<Rightarrow> Inr False))"

fun matches :: "env \<Rightarrow> doc \<Rightarrow> (string \<times> jsval) list \<Rightarrow> error + bool" where
  "matches e file [] = Inr True"
| "matches e file (kv # rest) =
     (case match_key e file kv of
        Inl err \<Rightarrow> Inl err
      | Inr False \<Rightarrow> Inr False
      | Inr True \<Rightarrow> matches e file rest)"

fun find_matching :: "env \<Rightarrow> doc \<Rightarrow> linkset list \<Rightarrow> error + linkset option" where
  "find_matching e file [] = Inr None"
| "find_matching e file (ls # rest) =
     (case matches e file (match ls) of
        Inl err \<Rightarrow> Inl err
      | Inr True \<Rightarrow> Inr (Some ls)
      | Inr False \<Rightarrow> find_matching e file rest)"

definition findLinkset ::
  "env \<Rightarrow> linkset list \<Rightarrow> linkset_fields \<Rightarrow> doc \<Rightarrow> error + linkset_fields"
where
  "findLinkset e lss defaultLinkset file =
     (case find_matching e file lss of
        Inl err \<Rightarrow> Inl err
      | Inr None \<Rightarrow> Inr defaultLinkset
      | Inr (Some ls) \<Rightarrow> Inr (linkset_fields.truncate ls))"

text \<open>
  \<open>Object.assign({}, a, b)\<close> on the properties the plugin reads afterwards: a property of
  \<open>b\<close> replaces the property of \<open>a\<close>.
\<close>

definition assign_linkset :: "linkset_fields \<Rightarrow> linkset_fields \<Rightarrow> linkset_fields" where
  "assign_linkset a b =
     \<lparr>pattern = (case pattern b of None \<Rightarrow> pattern a | Some v \<Rightarrow> Some v),
      date = (case date b of None \<Rightarrow> date a | Some v \<Rightarrow> Some v),
      slug = (case slug b of None \<Rightarrow> slug a | Some v \<Rightarrow> Some v),
      relative = (case relative b of None \<Rightarrow> relative a | Some v \<Rightarrow> Some v)\<rparr>"

text \<open>
  Line 323 of the source: the effective linkset of a document.
\<close>

definition effective_linkset ::
  "env \<Rightarrow> linkset list \<Rightarrow> linkset_fields \<Rightarrow> doc \<Rightarrow> error + linkset_fields"
where
  "effective_linkset e lss defaultLinkset data =
     (case findLinkset e lss defaultLinkset data of
        Inl err \<Rightarrow> Inl err
      | Inr found \<Rightarrow> Inr (assign_linkset found defaultLinkset))"

section \<open>The plugin\<close>

text \<open>
  What \<open>permalinks(options)\<close> binds for the plugin function it returns: the normalised
  options, the default linkset and the object \<open>dupes\<close>.
\<close>

record closure =
  cl_options :: options
  cl_defaultLinkset :: linkset_fields
  cl_dupes :: files

definition permalinks :: "env \<Rightarrow> options_argument \<Rightarrow> closure" where
  "permalinks e arg =
     (let opts = normalize_options e arg
      in \<lparr>cl_options = opts,
          cl_defaultLinkset =
            (case find isDefault (linksets opts) of
               Some ls \<Rightarrow> linkset_fields.truncate ls
             | None \<Rightarrow> linkset_fields.truncate opts),
          cl_dupes = []\<rparr>)"

text \<open>
  What the run does, in the order it does it: a call of \<open>done\<close> (with the error, if any),
  a write \<open>dupes[rel] = \<dots>\<close>, a write \<open>files[out] = data\<close> of a document, and a write
  \<open>files[dupe] = dupes[dupe]\<close> of the final loop.
\<close>

datatype event = Done "string option" | Stage string | Commit string | Merge string

record run =
  run_files :: files
  run_dupes :: files
  run_log :: "event list"

text \<open>
  \<open>defaultUniquePath\<close> either calls \<open>done\<close> with a message and returns what \<open>done\<close>
  returns, or returns a target.
\<close>

datatype unique_path = Clash string | Target string

text \<open>\<open>indexFile || 'index.html'\<close>: an absent or empty \<open>indexFile\<close> gives the default.\<close>

definition index_file :: "options \<Rightarrow> string" where
  "index_file opts =
     (case indexFile opts of
        None \<Rightarrow> ''index.html''
      | Some f \<Rightarrow> if f = [] then ''index.html'' else f)"

partial_function (option) defaultUniquePath_loop ::
  "options \<Rightarrow> files \<Rightarrow> string \<Rightarrow> nat \<Rightarrow> string \<Rightarrow> unique_path option"
where
  "defaultUniquePath_loop opts filesObj targetPath counter postfix =
     (let target = path_join [targetPath @ postfix, index_file opts]
      in if duplicatesFail opts \<and> map_of filesObj target \<noteq> None
         then Some (Clash (''Permalinks: Clash with another target file '' @ target))
         else if unique opts \<and> map_of filesObj target \<noteq> None
         then defaultUniquePath_loop opts filesObj targetPath (Suc counter)
                (CHR ''-'' # nat_to_string (Suc counter))
         else Some (Target target))"

declare defaultUniquePath_loop.simps [code]

definition defaultUniquePath :: "options \<Rightarrow> string \<Rightarrow> files \<Rightarrow> unique_path option" where
  "defaultUniquePath opts targetPath filesObj = defaultUniquePath_loop opts filesObj targetPath 0 []"

text \<open>
  The target the loop of \<open>defaultUniquePath\<close> tries in its round \<open>k\<close>: the index file
  joined to the candidate directory, which carries the suffix \<open>-k\<close> from the second
  round on (\<open>nth_postfix\<close> is the value of \<open>postfix\<close> in that round).
\<close>

definition nth_postfix :: "nat \<Rightarrow> string" where
  "nth_postfix k = (if k = 0 then [] else CHR ''-'' # nat_to_string k)"

definition nth_target :: "options \<Rightarrow> string \<Rightarrow> nat \<Rightarrow> string" where
  "nth_target opts targetPath k = path_join [targetPath @ nth_postfix k, index_file opts]"

text \<open>Line 326 of the source: \<open>replace(linkset.pattern, data, linkset) || resolve(file)\<close>.\<close>

definition candidate_path :: "env \<Rightarrow> linkset_fields \<Rightarrow> doc \<Rightarrow> string \<Rightarrow> error + string" where
  "candidate_path e ls data file =
     (case replace e (pattern ls) data ls of
        Inl err \<Rightarrow> Inl err
      | Inr None \<Rightarrow> Inr (resolve file)
      | Inr (Some s) \<Rightarrow> Inr (if s = [] then resolve file else s))"

text \<open>
  The body of the loop over \<open>Object.keys(files)\<close> for one key. \<open>commit_file\<close> is its
  second half, from the return of \<open>makeUnique\<close> on (lines 350 to 368): the family is
  staged in \<open>dupes\<close> and recorded in \<open>moved\<close>, \<open>path\<close> is set, the contents are relinked
  and the document is moved to \<open>out\<close>. \<open>done\<close> returns \<open>undefined\<close>, as a completion callback
  does, so after a clash \<open>out\<close> is the key \<open>undefined\<close>. The result of \<open>process_file\<close> is
  \<open>None\<close> when \<open>defaultUniquePath\<close> does not return.
\<close>

definition commit_file :: "run \<Rightarrow> string \<Rightarrow> doc \<Rightarrow> string \<Rightarrow> files \<Rightarrow> unique_path \<Rightarrow> run" where
  "commit_file st file data ppath fam made =
     (let called = (case made of Clash msg \<Rightarrow> [Done (Some msg)] | Target t \<Rightarrow> []);
          out = (case made of Clash msg \<Rightarrow> ''undefined'' | Target t \<Rightarrow> t);
          staged = map (\<lambda>(key, d). (path_join [ppath, key], d)) fam;
          moved = foldl (\<lambda>m (key, d). AList.update key (path_join [ppath, key]) m) [] fam;
          data1 = data\<lparr>path := Some (if ppath = ''.'' then [] else backslashes_to_slashes ppath)\<rparr>;
          data2 = relink data1 moved
      in \<lparr>run_files = AList.update out data2 (AList.delete file (run_files st)),
          run_dupes = foldl (\<lambda>ds (rel, d). AList.update rel d ds) (run_dupes st) staged,
          run_log = run_log st @ called @ map (\<lambda>(rel, d). Stage rel) staged @ [Commit out]\<rparr>)"

definition process_file :: "env \<Rightarrow> closure \<Rightarrow> run \<Rightarrow> string \<Rightarrow> (error + run) option" where
  "process_file e cl st file =
     (case map_of (run_files st) file of
        None \<Rightarrow> if \<not> html file then Some (Inr st) else Some (Inl TypeError)
      | Some data \<Rightarrow>
          if \<not> html file then Some (Inr st)
          else if permalink data = PermalinkFalse then Some (Inr st)
          else (case effective_linkset e (linksets (cl_options cl)) (cl_defaultLinkset cl) data of
                  Inl err \<Rightarrow> Some (Inl err)
                | Inr ls \<Rightarrow>
                    (case candidate_path e ls data file of
                       Inl err \<Rightarrow> Some (Inl err)
                     | Inr candidate \<Rightarrow>
                         (let fam = (case relative ls of
                                       Some RelativeTrue \<Rightarrow> family file (run_files st)
                                     | Some RelativeFolder \<Rightarrow> folder file (run_files st)
                                     | _ \<Rightarrow> []);
                              ppath = (case permalink data of
                                         PermalinkString s \<Rightarrow> s
                                       | _ \<Rightarrow> candidate)
                          in case defaultUniquePath (cl_options cl) ppath (run_files st) of
                               None \<Rightarrow> None
                             | Some made \<Rightarrow> Some (Inr (commit_file st file data ppath fam made))))))"

fun forEach_file :: "env \<Rightarrow> closure \<Rightarrow> string list \<Rightarrow> run \<Rightarrow> (error + run) option" where
  "forEach_file e cl [] st = Some (Inr st)"
| "forEach_file e cl (file # rest) st =
     (case process_file e cl st file of
        None \<Rightarrow> None
      | Some (Inl err) \<Rightarrow> Some (Inl err)
      | Some (Inr st') \<Rightarrow> forEach_file e cl rest st')"

text \<open>The final loop: \<open>Object.keys(dupes).forEach(dupe => files[dupe] = dupes[dupe])\<close>.\<close>

definition merge_dupes :: "run \<Rightarrow> run" where
  "merge_dupes st =
     foldl (\<lambda>s (dupe, d). s\<lparr>run_files := AList.update dupe d (run_files s),
                               run_log := run_log s @ [Merge dupe]\<rparr>)
       st (run_dupes st)"

text \<open>
  One invocation of the plugin function on a file set. \<open>setImmediate(done)\<close> is the first
  statement: the call it schedules happens once the synchronous work is over, so it is
  the last event. The \<open>dupes\<close> of the result are the \<open>dupes\<close> the next invocation of the
  same plugin function starts with.
\<close>

definition permalinksPlugin :: "env \<Rightarrow> closure \<Rightarrow> files \<Rightarrow> (error + run) option" where
  "permalinksPlugin e cl files =
     (case forEach_file e cl (map fst files)
             \<lparr>run_files = files, run_dupes = cl_dupes cl, run_log = []\<rparr> of
        None \<Rightarrow> None
      | Some (Inl err) \<Rightarrow> Some (Inl err)
      | Some (Inr st) \<Rightarrow>
          (let st' = merge_dupes st in Some (Inr (st'\<lparr>run_log := run_log st' @ [Done None]\<rparr>))))"

text \<open>
  The loop over \<open>Object.keys(files)\<close> once more, with the state in which it ends. When the
  body raises an error at a key, it has written nothing for that key yet (every error of
  the body is raised before line 350), so the loop ends in the state that the keys before
  it left, and \<open>dupes\<close> keeps what they staged.
\<close>

fun forEach_state :: "env \<Rightarrow> closure \<Rightarrow> string list \<Rightarrow> run \<Rightarrow> (run \<times> error option) option" where
  "forEach_state e cl [] st = Some (st, None)"
| "forEach_state e cl (file # rest) st =
     (case process_file e cl st file of
        None \<Rightarrow> None
      | Some (Inl err) \<Rightarrow> Some (st, Some err)
      | Some (Inr st') \<Rightarrow> forEach_state e cl rest st')"

text \<open>
  How an invocation of the plugin function ends: it returns, leaving the run \<open>r\<close>, or it
  raises an error in the loop, leaving the state of the loop at that moment.
\<close>

datatype outcome = Returned run | Raised error run


definition invocation :: "env \<Rightarrow> closure \<Rightarrow> files \<Rightarrow> outcome option" where
  "invocation e cl files =
     (case forEach_state e cl (map fst files)
             \<lparr>run_files = files, run_dupes = cl_dupes cl, run_log = []\<rparr> of
        None \<Rightarrow> None
      | Some (st, Some err) \<Rightarrow> Some (Raised err st)
      | Some (st, None) \<Rightarrow>
          (let st' = merge_dupes st in Some (Returned (st'\<lparr>run_log := run_log st' @ [Done None]\<rparr>))))"





section \<open>Example inputs\<close>

text \<open>
  Stand-ins for the libraries in the examples: \<open>slugify\<close> leaves a text as it is (the
  texts of the examples are slugs already), a date is formatted as its format string, and
  \<open>substitute\<close> puts the value of each key in the place of its \<open>:key\<close>.
\<close>

function substitute_tokens :: "(string \<times> string) list \<Rightarrow> string \<Rightarrow> string" where
  "substitute_tokens ret [] = []"
| "substitute_tokens ret (c # cs) =
     (if c = CHR '':'' \<and> takeWhile is_word_char cs \<noteq> []
      then (case map_of ret (takeWhile is_word_char cs) of
              Some v \<Rightarrow> v
            | None \<Rightarrow> c # takeWhile is_word_char cs)
           @ substitute_tokens ret (dropWhile is_word_char cs)
      else c # substitute_tokens ret cs)"
  by pat_completeness auto
termination
  by (relation "measure (\<lambda>(ret, s). length s)") (auto simp: le_imp_less_Suc length_dropWhile_le)

definition example_env :: env where
  "example_env =
     \<lparr>slugify = (\<lambda>text opts. text),
      moment_format = (\<lambda>fmt t. fmt),
      substitute = (\<lambda>p ret. substitute_tokens ret p),
      date_string = (\<lambda>t. ''date'')\<rparr>"

text \<open>A document with the given contents, \<open>permalink\<close> entry and metadata.\<close>

definition example_doc :: "string \<Rightarrow> permalink_field \<Rightarrow> (string \<times> jsval) list \<Rightarrow> doc" where
  "example_doc c p m = \<lparr>contents = c, path = None, permalink = p, metadata = m\<rparr>"

text \<open>The options object \<open>{}\<close>.\<close>

definition no_options :: options where
  "no_options =
     \<lparr>pattern = None, date = None, slug = None, relative = None,
      indexFile = None, unique = False, duplicatesFail = False, linksets = []\<rparr>"

section \<open>The path fallback resolver\<close>

lemma set_dirname: "set (dirname p) \<subseteq> set p \<union> {CHR ''.'', CHR ''/''}"
  by (auto simp: dirname_def split: option.splits dest: in_set_takeD)

lemma set_basename: "set (basename p ext) \<subseteq> set p"
  by (auto simp: basename_def Let_def split: prod.splits option.splits if_splits
      dest!: in_set_takeD in_set_dropD)

lemma set_split_slash_all: "\<forall>seg \<in> set (split_slash p). set seg \<subseteq> set p"
proof (induction p)
  case Nil
  then show ?case by simp
next
  case (Cons c cs)
  show ?case
  proof (cases "c = CHR ''/''")
    case True
    with Cons show ?thesis by auto
  next
    case False
    show ?thesis
    proof (cases "split_slash cs")
      case Nil
      with False show ?thesis by simp
    next
      case (Cons seg segs)
      with Cons.IH have "set seg \<subseteq> set cs" "\<forall>s \<in> set segs. set s \<subseteq> set cs" by simp_all
      with False Cons show ?thesis by auto
    qed
  qed
qed

lemma set_split_slash: "seg \<in> set (split_slash p) \<Longrightarrow> set seg \<subseteq> set p"
  using set_split_slash_all by blast

lemma set_normalize_segment:
  "s \<in> set (normalize_segment allow res seg) \<Longrightarrow> s \<in> set res \<or> s = seg \<or> s = ''..''"
  by (auto simp: normalize_segment_def split: if_splits dest: in_set_butlastD)

lemma set_normalize_segments:
  "s \<in> set (foldl (normalize_segment allow) res segs) \<Longrightarrow> s \<in> set res \<or> s \<in> set segs \<or> s = ''..''"
proof (induction segs arbitrary: res)
  case Nil
  then show ?case by simp
next
  case (Cons seg segs)
  from Cons.IH [OF Cons.prems [simplified]] show ?case
    using set_normalize_segment [of s allow res seg] by auto
qed

lemma set_join_with: "set (join_with sep xs) \<subseteq> set sep \<union> \<Union> (set ` set xs)"
  by (induction sep xs rule: join_with.induct) auto

lemma set_normalizeString: "set (normalizeString p allow) \<subseteq> set p \<union> {CHR ''.'', CHR ''/''}"
proof
  fix c assume "c \<in> set (normalizeString p allow)"
  then have "c \<in> set ''/'' \<union> \<Union> (set ` set (foldl (normalize_segment allow) [] (split_slash p)))"
    using set_join_with unfolding normalizeString_def by blast
  then show "c \<in> set p \<union> {CHR ''.'', CHR ''/''}"
  proof
    assume "c \<in> set ''/''" then show ?thesis by simp
  next
    assume "c \<in> \<Union> (set ` set (foldl (normalize_segment allow) [] (split_slash p)))"
    then obtain s where s: "s \<in> set (foldl (normalize_segment allow) [] (split_slash p))" and c: "c \<in> set s"
      by auto
    from set_normalize_segments [OF s] have "s \<in> set (split_slash p) \<or> s = ''..''" by simp
    then show ?thesis using c set_split_slash [of s p] by auto
  qed
qed

lemma set_path_normalize: "set (path_normalize p) \<subseteq> set p \<union> {CHR ''.'', CHR ''/''}"
  using set_normalizeString [of p]
  by (auto simp: path_normalize_def Let_def split: if_splits)

lemma set_path_join: "set (path_join args) \<subseteq> \<Union> (set ` set args) \<union> {CHR ''.'', CHR ''/''}"
proof -
  have "set (join_with ''/'' (filter (\<lambda>arg. arg \<noteq> []) args)) \<subseteq> \<Union> (set ` set args) \<union> {CHR ''/''}"
    using set_join_with [of "''/''" "filter (\<lambda>arg. arg \<noteq> []) args"] by auto
  then show ?thesis
    using set_path_normalize [of "join_with ''/'' (filter (\<lambda>arg. arg \<noteq> []) args)"]
    by (auto simp: path_join_def Let_def)
qed

lemma backslashes_to_slashes_id: "CHR 0x5C \<notin> set s \<Longrightarrow> backslashes_to_slashes s = s"
  by (induction s) (auto simp: backslashes_to_slashes_def)

text \<open>
  The replacement changes nothing for a path that holds no backslash: there \<open>resolve\<close>
  returns the containing directory or the plain join.
\<close>

lemma resolve_without_backslash:
  assumes "CHR 0x5C \<notin> set str"
  shows "resolve str =
     (if basename str (extname str) = ''index'' then dirname str
      else path_join [dirname str, basename str (extname str)])"
proof -
  have "set (path_join [dirname str, basename str (extname str)]) \<subseteq> set str \<union> {CHR ''.'', CHR ''/''}"
    using set_path_join [of "[dirname str, basename str (extname str)]"]
      set_dirname [of str] set_basename [of str "extname str"] by auto
  with assms have "CHR 0x5C \<notin> set (path_join [dirname str, basename str (extname str)])"
    by auto
  then show ?thesis
    by (simp add: resolve_def Let_def backslashes_to_slashes_id)
qed

text \<open>
  Claim C8, as the code has it: \<open>resolve\<close> strips the extension; when the remaining base
  name is \<open>index\<close> it returns the containing directory, otherwise the directory joined
  with the base name, in which every backslash is then replaced by a forward slash (for a
  path without a backslash that is the join itself). In particular \<open>about/index.html\<close>
  resolves to \<open>about\<close>.
\<close>

theorem resolve_fallback:
  "resolve str =
     (if basename str (extname str) = ''index'' then dirname str
      else backslashes_to_slashes (path_join [dirname str, basename str (extname str)]))
   \<and> (CHR 0x5C \<notin> set str \<longrightarrow>
        resolve str =
          (if basename str (extname str) = ''index'' then dirname str
           else path_join [dirname str, basename str (extname str)]))
   \<and> resolve ''about/index.html'' = ''about''"
proof -
  have "resolve ''about/index.html'' = ''about''" by code_simp
  moreover have "resolve str =
     (if basename str (extname str) = ''index'' then dirname str
      else backslashes_to_slashes (path_join [dirname str, basename str (extname str)]))"
    by (simp add: resolve_def Let_def)
  ultimately show ?thesis using resolve_without_backslash [of str] by blast
qed

text \<open>
  The path \<open>posts/hello.html\<close> holds no backslash and its base name is not \<open>index\<close>: it
  resolves to the join \<open>posts/hello\<close> of its directory and base name.
\<close>

theorem resolve_fallback_witness:
  "CHR 0x5C \<notin> set ''posts/hello.html''
   \<and> resolve ''posts/hello.html''
       = path_join [dirname ''posts/hello.html'', basename ''posts/hello.html'' (extname ''posts/hello.html'')]
   \<and> resolve ''posts/hello.html'' = ''posts/hello''"
proof -
  have plain: "CHR 0x5C \<notin> set ''posts/hello.html''" by simp
  have base: "basename ''posts/hello.html'' (extname ''posts/hello.html'') \<noteq> ''index''" by code_simp
  have joined: "path_join [dirname ''posts/hello.html'', basename ''posts/hello.html'' (extname ''posts/hello.html'')]
      = ''posts/hello''" by code_simp
  from resolve_fallback [of "''posts/hello.html''", THEN conjunct2, THEN conjunct1, THEN mp, OF plain]
  have "resolve ''posts/hello.html''
       = path_join [dirname ''posts/hello.html'', basename ''posts/hello.html'' (extname ''posts/hello.html'')]"
    using base by simp
  with plain joined show ?thesis by simp
qed

text \<open>
  Claim C8 as stated, without the replacement of backslashes, fails for a file name that
  holds a backslash: the base name of \<open>a\b.html\<close> is \<open>a\b\<close>, not \<open>index\<close>, and the
  result \<open>a/b\<close> is not the directory joined with the base name.
\<close>

theorem resolve_plain_join_counterexample:
  "basename (CHR ''a'' # CHR 0x5C # ''b.html'') (extname (CHR ''a'' # CHR 0x5C # ''b.html'')) \<noteq> ''index''
   \<and> resolve (CHR ''a'' # CHR 0x5C # ''b.html'')
       \<noteq> path_join [dirname (CHR ''a'' # CHR 0x5C # ''b.html''),
                     basename (CHR ''a'' # CHR 0x5C # ''b.html'') (extname (CHR ''a'' # CHR 0x5C # ''b.html''))]"
  by code_simp

section \<open>Pattern resolution and the fallback\<close>

lemma replace_keys_null:
  assumes "date opts = Some (DateFunction f)"
    and "key \<in> set keys"
    and "doc_get data key = JUndefined \<or> doc_get data key = JArr []"
  shows "replace_keys e opts data keys ret = Inr None"
  using assms
proof (induction keys arbitrary: ret)
  case Nil
  then show ?case by simp
next
  case (Cons k keys)
  show ?case
  proof (cases "k = key")
    case True
    with Cons.prems(3) show ?thesis by auto
  next
    case False
    with Cons.prems have "key \<in> set keys" by simp
    then have IH: "\<And>r. replace_keys e opts data keys r = Inr None"
      using Cons.IH Cons.prems by blast
    show ?thesis
      by (cases "doc_get data k") (simp_all add: IH Cons.prems(1) Let_def)
  qed
qed

text \<open>
  When the \<open>date\<close> of the options is a formatter function, as \<open>normalize\<close> makes it,
  \<open>replace\<close> returns null whenever the pattern is null or empty, or the field of some
  placeholder is absent or an empty array, and line 326 then falls back to
  \<open>resolve(file)\<close> without an error.
\<close>

lemma replace_not_applicable:
  assumes "date ls = Some (DateFunction f)"
    and "pattern ls = None \<or> pattern ls = Some []
         \<or> (\<exists>p key. pattern ls = Some p \<and> key \<in> set (params p)
               \<and> (doc_get data key = JUndefined \<or> doc_get data key = JArr []))"
  shows "replace e (pattern ls) data ls = Inr None
         \<and> candidate_path e ls data file = Inr (resolve file)"
proof -
  consider (none) "pattern ls = None" | (empty) "pattern ls = Some []"
    | (field) p key where "pattern ls = Some p" "key \<in> set (params p)"
        "doc_get data key = JUndefined \<or> doc_get data key = JArr []"
    using assms(2) by auto
  then have "replace e (pattern ls) data ls = Inr None"
  proof cases
    case none
    then show ?thesis by (simp add: replace_def)
  next
    case empty
    then show ?thesis by (simp add: replace_def)
  next
    case field
    then show ?thesis
      using replace_keys_null [OF assms(1), of key "params p" data e "[]"]
      by (simp add: replace_def)
  qed
  then show ?thesis by (simp add: candidate_path_def)
qed

text \<open>
  The pattern \<open>:date/:title\<close> on a document with no \<open>date\<close>: the candidate of
  \<open>posts/hello.html\<close> is \<open>posts/hello\<close>.
\<close>

lemma replace_not_applicable_example:
  "replace example_env (Some '':date/:title'') (example_doc ''text'' PermalinkAbsent [(''title'', JStr ''hello'')])
      \<lparr>pattern = Some '':date/:title'', date = Some (DateFunction (\<lambda>t. ''2020'')), slug = None, relative = None\<rparr> = Inr None
   \<and> candidate_path example_env
       \<lparr>pattern = Some '':date/:title'', date = Some (DateFunction (\<lambda>t. ''2020'')), slug = None, relative = None\<rparr>
       (example_doc ''text'' PermalinkAbsent [(''title'', JStr ''hello'')]) ''posts/hello.html'' = Inr ''posts/hello''"
proof -
  have k: "''date'' \<in> set (params '':date/:title'')" by code_simp
  have d: "doc_get (example_doc ''text'' PermalinkAbsent [(''title'', JStr ''hello'')]) ''date'' = JUndefined"
    by code_simp
  have r: "resolve ''posts/hello.html'' = ''posts/hello''" by code_simp
  show ?thesis
    using replace_not_applicable [of "\<lparr>pattern = Some '':date/:title'', date = Some (DateFunction (\<lambda>t. ''2020'')), slug = None, relative = None\<rparr>"
        "\<lambda>t. ''2020''" "example_doc ''text'' PermalinkAbsent [(''title'', JStr ''hello'')]" example_env "''posts/hello.html''"]
      k d r
    by auto
qed

text \<open>
  The hypothesis on \<open>date\<close> holds for every document when no linkset is marked
  \<open>isDefault\<close>: the default linkset is then the normalised options, and its formatter is
  copied into every effective linkset.
\<close>

lemma effective_linkset_has_formatter:
  assumes "find isDefault (linksets (normalize_options e arg)) = None"
    and "effective_linkset e lss (cl_defaultLinkset (permalinks e arg)) data = Inr ls"
  shows "\<exists>f. date ls = Some (DateFunction f)"
proof -
  have "\<exists>f. date (cl_defaultLinkset (permalinks e arg)) = Some (DateFunction f)"
    using assms(1)
    by (simp add: permalinks_def Let_def normalize_options_def linkset_fields.truncate_def)
  then show ?thesis
    using assms(2)
    by (auto simp: effective_linkset_def assign_linkset_def split: sum.splits)
qed

text \<open>
  Claim C6 on an example where it fails: a linkset marked \<open>isDefault\<close> becomes the default
  linkset as it is, without the \<open>date\<close> function that \<open>normalize\<close> gives the options (the
  typedef of a linkset documents the default \<open>YYYY/MM/DD\<close>). For the pattern
  \<open>:date/:title\<close> and a document with a \<open>Date\<close> in \<open>date\<close> and no \<open>title\<close>, \<open>replace\<close>
  calls \<open>options.date\<close> before it reaches the absent field: it raises a \<open>TypeError\<close> instead
  of returning null, and so does the run.
\<close>

theorem absent_field_raises_example:
  "replace example_env (Some '':date/:title'')
     (example_doc ''text'' PermalinkAbsent [(''date'', JDate 0)])
     (cl_defaultLinkset (permalinks example_env (OptionsObject
        (no_options\<lparr>linksets := [\<lparr>pattern = Some '':date/:title'', date = None, slug = None,
                                      relative = None, match = [], isDefault = True\<rparr>]\<rparr>))))
   = Inl TypeError
   \<and> permalinksPlugin example_env
       (permalinks example_env (OptionsObject
          (no_options\<lparr>linksets := [\<lparr>pattern = Some '':date/:title'', date = None, slug = None,
                                        relative = None, match = [], isDefault = True\<rparr>]\<rparr>)))
       [(''posts/hello.html'', example_doc ''text'' PermalinkAbsent [(''date'', JDate 0)])]
   = Some (Inl TypeError)
   \<and> doc_get (example_doc ''text'' PermalinkAbsent [(''date'', JDate 0)]) ''title'' = JUndefined"
  by code_simp

section \<open>The default uniqueness resolver\<close>

lemma defaultUniquePath_loop_round:
  assumes "unique opts" and "\<not> duplicatesFail opts"
  shows "defaultUniquePath_loop opts filesObj targetPath c (nth_postfix c)
         = (if map_of filesObj (nth_target opts targetPath c) \<noteq> None
            then defaultUniquePath_loop opts filesObj targetPath (Suc c) (nth_postfix (Suc c))
            else Some (Target (nth_target opts targetPath c)))"
  using assms
  by (subst defaultUniquePath_loop.simps) (simp add: nth_target_def nth_postfix_def Let_def)

lemma defaultUniquePath_loop_from:
  assumes "unique opts" and "\<not> duplicatesFail opts"
    and "c \<le> n"
    and "\<And>k. c \<le> k \<Longrightarrow> k < n \<Longrightarrow> map_of filesObj (nth_target opts targetPath k) \<noteq> None"
    and "map_of filesObj (nth_target opts targetPath n) = None"
  shows "defaultUniquePath_loop opts filesObj targetPath c (nth_postfix c)
         = Some (Target (nth_target opts targetPath n))"
  using assms(3,4)
proof (induction "n - c" arbitrary: c)
  case 0
  then have "c = n" by simp
  then show ?case
    using assms(5) by (simp add: defaultUniquePath_loop_round [OF assms(1,2)])
next
  case (Suc d)
  then have lt: "c < n" by simp
  have occ: "map_of filesObj (nth_target opts targetPath c) \<noteq> None"
    using Suc.prems(2) [of c] lt by simp
  have "defaultUniquePath_loop opts filesObj targetPath (Suc c)
          (nth_postfix (Suc c))
        = Some (Target (nth_target opts targetPath n))"
  proof (rule Suc.hyps(1))
    show "d = n - Suc c" using Suc.hyps(2) by simp
    show "Suc c \<le> n" using lt by simp
    show "\<And>k. Suc c \<le> k \<Longrightarrow> k < n \<Longrightarrow> map_of filesObj (nth_target opts targetPath k) \<noteq> None"
      using Suc.prems(2) by simp
  qed
  then show ?case
    using occ by (simp add: defaultUniquePath_loop_round [OF assms(1,2)])
qed

text \<open>
  Claim C7: with \<open>unique\<close> on and \<open>duplicatesFail\<close> off, \<open>defaultUniquePath\<close> returns the
  first target that is free in the file set, trying the index file in the candidate
  directory first and then in the directory with the suffixes \<open>-1\<close>, \<open>-2\<close>, \<open>\<dots>\<close>: when the
  targets of the rounds before \<open>n\<close> are occupied and the target of round \<open>n\<close> is free, the
  loop ends and returns the target of round \<open>n\<close>.
\<close>

theorem defaultUniquePath_first_free:
  assumes "unique opts" and "\<not> duplicatesFail opts"
    and "\<forall>k<n. map_of filesObj (nth_target opts targetPath k) \<noteq> None"
    and "map_of filesObj (nth_target opts targetPath n) = None"
  shows "defaultUniquePath opts targetPath filesObj = Some (Target (nth_target opts targetPath n))"
  using defaultUniquePath_loop_from [OF assms(1,2), of 0 n filesObj targetPath] assms(3,4)
  by (simp add: defaultUniquePath_def nth_postfix_def)

text \<open>
  The second document with the candidate \<open>foo\<close>, when \<open>foo/index.html\<close> exists, resolves
  to \<open>foo-1/index.html\<close>.
\<close>

theorem defaultUniquePath_first_free_witness:
  "defaultUniquePath (no_options\<lparr>unique := True\<rparr>) ''foo''
     [(''foo/index.html'', example_doc ''first'' PermalinkAbsent [])]
   = Some (Target ''foo-1/index.html'')"
proof -
  have u: "unique (no_options\<lparr>unique := True\<rparr>)" "\<not> duplicatesFail (no_options\<lparr>unique := True\<rparr>)"
    by (simp_all add: no_options_def)
  have t0: "nth_target (no_options\<lparr>unique := True\<rparr>) ''foo'' 0 = ''foo/index.html''"
    by code_simp
  have t1: "nth_target (no_options\<lparr>unique := True\<rparr>) ''foo'' 1 = ''foo-1/index.html''"
    by code_simp
  have occ: "\<forall>k<1. map_of [(''foo/index.html'', example_doc ''first'' PermalinkAbsent [])]
           (nth_target (no_options\<lparr>unique := True\<rparr>) ''foo'' k) \<noteq> None"
    using t0 by simp
  have free: "map_of [(''foo/index.html'', example_doc ''first'' PermalinkAbsent [])]
           (nth_target (no_options\<lparr>unique := True\<rparr>) ''foo'' 1) = None"
    using t1 by simp
  show ?thesis
    using defaultUniquePath_first_free [OF u occ free] t1 by simp
qed

text \<open>
  The loop returns whenever the targets of the rounds are pairwise different: the file
  set is finite, so one of them is free. The hypothesis is needed: with the index file
  \<open>../x\<close> every round has the target \<open>x\<close>.
\<close>

lemma same_target_example:
  "nth_target (no_options\<lparr>indexFile := Some ''../x''\<rparr>) ''foo'' 0 = ''x''
   \<and> nth_target (no_options\<lparr>indexFile := Some ''../x''\<rparr>) ''foo'' 1 = ''x''"
  by code_simp

lemma defaultUniquePath_returns:
  assumes "unique opts" and "\<not> duplicatesFail opts"
    and "inj (nth_target opts targetPath)"
  shows "\<exists>n. defaultUniquePath opts targetPath filesObj = Some (Target (nth_target opts targetPath n))"
proof -
  have "\<exists>n. map_of filesObj (nth_target opts targetPath n) = None"
  proof (rule ccontr)
    assume "\<not> (\<exists>n. map_of filesObj (nth_target opts targetPath n) = None)"
    then have "range (nth_target opts targetPath) \<subseteq> dom (map_of filesObj)"
      by auto
    then have "finite (range (nth_target opts targetPath))"
      using finite_dom_map_of finite_subset by blast
    with assms(3) show False
      using finite_imageD infinite_UNIV_nat by blast
  qed
  then obtain n where free: "map_of filesObj (nth_target opts targetPath n) = None"
    and least: "\<And>k. k < n \<Longrightarrow> map_of filesObj (nth_target opts targetPath k) \<noteq> None"
    using exists_least_iff [of "\<lambda>n. map_of filesObj (nth_target opts targetPath n) = None"] by auto
  have "defaultUniquePath_loop opts filesObj targetPath 0 (nth_postfix 0)
        = Some (Target (nth_target opts targetPath n))"
    by (rule defaultUniquePath_loop_from [OF assms(1,2) _ _ free]) (simp_all add: least)
  then show ?thesis by (auto simp: defaultUniquePath_def nth_postfix_def)
qed

section \<open>The family of a document\<close>

lemma indexOf_zero: "indexOf s pat = Some 0 \<longleftrightarrow> prefix pat s"
  by (cases s) auto

lemma update_fresh: "k \<notin> fst ` set al \<Longrightarrow> AList.update k v al = al @ [(k, v)]"
  by (induction al) auto

lemma drop_prefix_inj:
  assumes "prefix dir k" and "prefix dir k'" and "drop (length dir) k = drop (length dir) k'"
  shows "k = k'"
proof -
  from assms(1) obtain r where "k = dir @ r" by (auto simp: prefix_def)
  moreover from assms(2) obtain r' where "k' = dir @ r'" by (auto simp: prefix_def)
  ultimately show ?thesis using assms(3) by simp
qed

lemma family_filter:
  assumes "distinct (map fst files)"
  shows "family file files =
         map (\<lambda>(k, d). (drop (length (file_dir file)) k, d))
           (filter (\<lambda>(k, d). k \<noteq> file \<and> prefix (file_dir file) k \<and> \<not> html k) files)"
  using assms
proof (induction files rule: rev_induct)
  case Nil
  then show ?case by (simp add: family_def)
next
  case (snoc kd files)
  obtain k d where kd: "kd = (k, d)" by (cases kd)
  from snoc.prems have dist: "distinct (map fst files)" and fresh: "k \<notin> fst ` set files"
    by (auto simp: kd)
  have IH: "family file files =
         map (\<lambda>(k, d). (drop (length (file_dir file)) k, d))
           (filter (\<lambda>(k, d). k \<noteq> file \<and> prefix (file_dir file) k \<and> \<not> html k) files)"
    using snoc.IH dist by simp
  have step: "family file (files @ [(k, d)]) =
      (if k = file then family file files
       else if \<not> prefix (file_dir file) k then family file files
       else if html k then family file files
       else AList.update (drop (length (file_dir file)) k) d (family file files))"
    by (simp add: family_def Let_def indexOf_zero)
  show ?case
  proof (cases "k \<noteq> file \<and> prefix (file_dir file) k \<and> \<not> html k")
    case False
    then show ?thesis using step IH by (auto simp: kd)
  next
    case True
    have "drop (length (file_dir file)) k \<notin> fst ` set (family file files)"
    proof
      assume "drop (length (file_dir file)) k \<in> fst ` set (family file files)"
      then obtain k' d' where "(k', d') \<in> set files" "prefix (file_dir file) k'"
        "drop (length (file_dir file)) k = drop (length (file_dir file)) k'"
        unfolding IH by auto
      with True have "k = k'" using drop_prefix_inj by blast
      with \<open>(k', d') \<in> set files\<close> fresh show False by force
    qed
    then show ?thesis using step IH True by (simp add: kd update_fresh)
  qed
qed

lemma dirname_scan_Some:
  "dirname_scan p j m = Some e \<Longrightarrow> 0 < e \<and> e \<le> j \<and> p ! e = CHR ''/''"
  by (induction p j m rule: dirname_scan.induct) (auto split: if_splits)

lemma dirname_prefix: "dirname p = ''.'' \<or> prefix (dirname p) p"
proof (cases "p = []")
  case True
  then show ?thesis by (simp add: dirname_def)
next
  case False
  then obtain c cs where p: "p = c # cs" by (cases p) auto
  show ?thesis
  proof (cases "dirname_scan p (length p - 1) True")
    case None
    then show ?thesis by (simp add: dirname_def p)
  next
    case (Some e)
    from dirname_scan_Some [OF Some] have e: "0 < e" "e \<le> length cs" "p ! e = CHR ''/''"
      by (simp_all add: p)
    show ?thesis
    proof (cases "c = CHR ''/'' \<and> e = 1")
      case True
      with e obtain cs' where "cs = CHR ''/'' # cs'" by (cases cs) (auto simp: p)
      with True Some show ?thesis by (simp add: dirname_def p)
    next
      case False
      with Some have "dirname p = take e p" by (auto simp: dirname_def p)
      then show ?thesis by (simp add: take_is_prefix)
    qed
  qed
qed


text \<open>
  Claim C5, as the code has it by design (\<open>family\<close> returns "sibling and children
  files"): in a file set with distinct keys, every member of the family under
  \<open>relative: true\<close> is a file other than the document that is not an HTML file and whose
  path starts with the directory of the document, and its key is the rest of its path
  after the directory (so it starts with the separator when the directory is not the
  root); and every such file in the directory of the document or below it is a member
  (for a document of the root directory, every such file).
\<close>

theorem family_members:
  assumes "distinct (map fst files)"
  shows "(\<forall>rel d. map_of (family file files) rel = Some d \<longrightarrow>
            (\<exists>key. map_of files key = Some d \<and> key \<noteq> file \<and> \<not> html key
                   \<and> prefix (file_dir file) key \<and> rel = drop (length (file_dir file)) key))
       \<and> (\<forall>key d. map_of files key = Some d \<and> key \<noteq> file \<and> \<not> html key
                   \<and> (dirname key = dirname file \<or> prefix (file_dir file @ ''/'') key
                        \<or> file_dir file = []) \<longrightarrow>
            map_of (family file files) (drop (length (file_dir file)) key) = Some d)"
proof -
  let ?dir = "file_dir file"
  let ?P = "\<lambda>(k, d). k \<noteq> file \<and> prefix ?dir k \<and> \<not> html k"
  let ?f = "\<lambda>(k, d). (drop (length ?dir) k, d)"
  let ?sel = "filter ?P files"
  have fam: "family file files = map ?f ?sel"
    using family_filter [OF assms] .
  have dist_sel: "distinct (map fst ?sel)"
    using assms by (simp add: distinct_map_filter)
  have inj: "inj_on (\<lambda>k. drop (length ?dir) k) (fst ` set ?sel)"
    by (rule inj_onI) (auto intro: drop_prefix_inj)
  have keys: "map fst (family file files) = map (\<lambda>k. drop (length ?dir) k) (map fst ?sel)"
    by (simp add: fam case_prod_unfold comp_def)
  have "distinct (map (\<lambda>k. drop (length ?dir) k) (map fst ?sel))"
  proof (rule iffD2 [OF distinct_map], rule conjI)
    show "distinct (map fst ?sel)" by (rule dist_sel)
    show "inj_on (\<lambda>k. drop (length ?dir) k) (set (map fst ?sel))"
      using inj by (simp only: set_map)
  qed
  then have dist: "distinct (map fst (family file files))"
    by (simp only: keys)
  have mem: "map_of (family file files) rel = Some d \<longleftrightarrow> (rel, d) \<in> set (map ?f ?sel)" for rel d
    using dist by (simp add: fam)
  have files_mem: "map_of files key = Some d \<longleftrightarrow> (key, d) \<in> set files" for key d
    using assms by simp
  have sound: "\<exists>key. map_of files key = Some d \<and> key \<noteq> file \<and> \<not> html key
                   \<and> prefix ?dir key \<and> rel = drop (length ?dir) key"
    if "map_of (family file files) rel = Some d" for rel d
  proof -
    from that have "(rel, d) \<in> set (map ?f ?sel)" by (simp only: mem)
    then obtain key where "(key, d) \<in> set files" "key \<noteq> file" "prefix ?dir key" "\<not> html key"
      "rel = drop (length ?dir) key" by auto
    then show ?thesis using files_mem by blast
  qed
  have complete: "map_of (family file files) (drop (length ?dir) key) = Some d"
    if "map_of files key = Some d" "key \<noteq> file" "\<not> html key"
      "dirname key = dirname file \<or> prefix (?dir @ ''/'') key \<or> ?dir = []" for key d
  proof -
    have "prefix ?dir key"
      using that(4)
    proof (elim disjE)
      assume same: "dirname key = dirname file"
      show ?thesis
      proof (cases "dirname file = ''.''")
        case True
        then show ?thesis by (simp add: file_dir_def)
      next
        case False
        with same dirname_prefix [of key] show ?thesis by (simp add: file_dir_def)
      qed
    next
      assume "prefix (?dir @ ''/'') key"
      then show ?thesis by (rule append_prefixD)
    next
      assume "?dir = []"
      then show ?thesis by simp
    qed
    moreover have "(key, d) \<in> set files" using that(1) files_mem by simp
    ultimately have "(drop (length ?dir) key, d) \<in> set (map ?f ?sel)"
      using that(2,3) by force
    then show ?thesis by (simp only: mem)
  qed
  show ?thesis using sound complete by blast
qed

text \<open>
  The sibling \<open>post/image.png\<close> and the nested \<open>post/img/a.png\<close> of \<open>post/article.html\<close>
  are members, under the keys \<open>/image.png\<close> and \<open>/img/a.png\<close>.
\<close>

theorem family_members_witness:
  "map_of (family ''post/article.html''
      [(''post/article.html'', example_doc ''article'' PermalinkAbsent []),
       (''post/image.png'', example_doc ''image'' PermalinkAbsent []),
       (''post/img/a.png'', example_doc ''nested'' PermalinkAbsent []),
       (''other/x.png'', example_doc ''other'' PermalinkAbsent [])]) ''/image.png''
    = Some (example_doc ''image'' PermalinkAbsent [])
   \<and> map_of (family ''post/article.html''
      [(''post/article.html'', example_doc ''article'' PermalinkAbsent []),
       (''post/image.png'', example_doc ''image'' PermalinkAbsent []),
       (''post/img/a.png'', example_doc ''nested'' PermalinkAbsent []),
       (''other/x.png'', example_doc ''other'' PermalinkAbsent [])]) ''/img/a.png''
    = Some (example_doc ''nested'' PermalinkAbsent [])"
proof -
  let ?files = "[(''post/article.html'', example_doc ''article'' PermalinkAbsent []),
       (''post/image.png'', example_doc ''image'' PermalinkAbsent []),
       (''post/img/a.png'', example_doc ''nested'' PermalinkAbsent []),
       (''other/x.png'', example_doc ''other'' PermalinkAbsent [])]"
  have d: "distinct (map fst ?files)" by simp
  have dir: "file_dir ''post/article.html'' = ''post''" by code_simp
  have same: "dirname ''post/image.png'' = dirname ''post/article.html''" by code_simp
  have nh: "\<not> html ''post/image.png''" "\<not> html ''post/img/a.png''" by code_simp+
  note fm = family_members [OF d, of "''post/article.html''", THEN conjunct2, rule_format]
  have a: "map_of (family ''post/article.html'' ?files) ''/image.png''
        = Some (example_doc ''image'' PermalinkAbsent [])"
    using fm [of "''post/image.png''" "example_doc ''image'' PermalinkAbsent []"]
      same nh dir by simp
  have b: "map_of (family ''post/article.html'' ?files) ''/img/a.png''
        = Some (example_doc ''nested'' PermalinkAbsent [])"
    using fm [of "''post/img/a.png''" "example_doc ''nested'' PermalinkAbsent []"]
      nh dir by simp
  show ?thesis using a b by simp
qed

text \<open>
  Claim C5 as stated fails: the family holds a file whose parent directory is \<open>post/img\<close>,
  not the parent directory \<open>post\<close> of the document, and the keys are not the paths
  relative to \<open>post\<close>.
\<close>

theorem family_same_directory_counterexample:
  "family ''post/article.html''
      [(''post/article.html'', example_doc ''article'' PermalinkAbsent []),
       (''post/image.png'', example_doc ''image'' PermalinkAbsent []),
       (''post/img/a.png'', example_doc ''nested'' PermalinkAbsent [])]
    = [(''/image.png'', example_doc ''image'' PermalinkAbsent []),
       (''/img/a.png'', example_doc ''nested'' PermalinkAbsent [])]
   \<and> dirname ''post/img/a.png'' = ''post/img''
   \<and> dirname ''post/article.html'' = ''post''"
  by code_simp

text \<open>
  The test of line 130 compares the directory as a prefix of the path, so a file of the
  directory \<open>post-extra\<close> passes it too. The theorem above says nothing about such a file.
\<close>

lemma family_prefix_sibling_example:
  "family ''post/article.html''
      [(''post/article.html'', example_doc ''article'' PermalinkAbsent []),
       (''post-extra/x.png'', example_doc ''sibling'' PermalinkAbsent [])]
    = [(''-extra/x.png'', example_doc ''sibling'' PermalinkAbsent [])]"
  by code_simp

section \<open>Relinking the contents\<close>









text \<open>The whole file set of that run: the image is inserted at \<open>post-slug/image.png\<close>.\<close>

lemma relink_leaves_reference_example:
  "map_option (map_sum id (\<lambda>r. map (\<lambda>(k, d). (k, contents d)) (run_files r)))
     (permalinksPlugin example_env
        (permalinks example_env (OptionsObject (no_options\<lparr>relative := Some RelativeTrue\<rparr>)))
        [(''post/article.html'', example_doc ''see image.png'' (PermalinkString ''post-slug'') []),
         (''post/image.png'', example_doc ''PNG'' PermalinkAbsent [])])
   = Some (Inr [(''post/image.png'', ''PNG''),
                (''post-slug/index.html'', ''see image.png''),
                (''post-slug/image.png'', ''PNG'')])"
  by code_simp

text \<open>
  \<open>String.prototype.replace\<close> with a string pattern rewrites one occurrence: of two
  occurrences of the new path, the first becomes the key.
\<close>

lemma relink_direction_example:
  "contents (relink (example_doc ''a post-slug/image.png b post-slug/image.png'' PermalinkAbsent [])
      [(''/image.png'', ''post-slug/image.png'')])
   = ''a /image.png b post-slug/image.png''"
  by code_simp

section \<open>The effective linkset\<close>

text \<open>
  Claim C2 on an example: the options have the pattern \<open>:title\<close> and a linkset that
  matches \<open>collection: 'blog'\<close> with the pattern \<open>blog/:title\<close>. For a document of that
  collection \<open>findLinkset\<close> returns the linkset, but \<open>Object.assign({}, findLinkset(data),
  defaultLinkset)\<close> copies the default last: the effective pattern is \<open>:title\<close> and the
  document moves to \<open>hello/index.html\<close>.
\<close>

theorem linkset_pattern_overridden_example:
  "map_sum id pattern
     (findLinkset example_env
        [\<lparr>pattern = Some ''blog/:title'', date = None, slug = None, relative = None,
          match = [(''collection'', JStr ''blog'')], isDefault = False\<rparr>]
        (cl_defaultLinkset (permalinks example_env (OptionsObject
           (no_options\<lparr>pattern := Some '':title'',
              linksets := [\<lparr>pattern = Some ''blog/:title'', date = None, slug = None, relative = None,
                             match = [(''collection'', JStr ''blog'')], isDefault = False\<rparr>]\<rparr>))))
        (example_doc ''text'' PermalinkAbsent [(''title'', JStr ''hello''), (''collection'', JStr ''blog'')]))
   = Inr (Some ''blog/:title'')
   \<and> map_sum id pattern
     (effective_linkset example_env
        [\<lparr>pattern = Some ''blog/:title'', date = None, slug = None, relative = None,
          match = [(''collection'', JStr ''blog'')], isDefault = False\<rparr>]
        (cl_defaultLinkset (permalinks example_env (OptionsObject
           (no_options\<lparr>pattern := Some '':title'',
              linksets := [\<lparr>pattern = Some ''blog/:title'', date = None, slug = None, relative = None,
                             match = [(''collection'', JStr ''blog'')], isDefault = False\<rparr>]\<rparr>))))
        (example_doc ''text'' PermalinkAbsent [(''title'', JStr ''hello''), (''collection'', JStr ''blog'')]))
   = Inr (Some '':title'')
   \<and> map_option (map_sum id (\<lambda>r. map fst (run_files r)))
     (permalinksPlugin example_env
        (permalinks example_env (OptionsObject
           (no_options\<lparr>pattern := Some '':title'',
              linksets := [\<lparr>pattern = Some ''blog/:title'', date = None, slug = None, relative = None,
                             match = [(''collection'', JStr ''blog'')], isDefault = False\<rparr>]\<rparr>)))
        [(''posts/first.html'',
          example_doc ''text'' PermalinkAbsent [(''title'', JStr ''hello''), (''collection'', JStr ''blog'')])])
   = Some (Inr [''hello/index.html''])"
  by code_simp

text \<open>In general: a pattern of the default linkset replaces the pattern of the linkset found.\<close>

lemma assign_linkset_default_wins:
  "pattern b = Some v \<Longrightarrow> pattern (assign_linkset a b) = Some v"
  by (simp add: assign_linkset_def)

section \<open>Collisions and the completion callback\<close>

text \<open>
  Claim C3 on an example with \<open>duplicatesFail: true\<close>: \<open>a.html\<close> and \<open>b.html\<close> both ask for
  \<open>foo\<close>. The clash of \<open>b.html\<close> calls \<open>done\<close> with the message that names
  \<open>foo/index.html\<close>, and the rename of \<open>a.html\<close> stays. But \<open>return done(\<dots>)\<close> only leaves
  \<open>defaultUniquePath\<close>: the loop goes on, writes \<open>b.html\<close> under the key \<open>undefined\<close> and
  commits \<open>c.html\<close>, the document after the colliding one.
\<close>

theorem clash_does_not_abort_example:
  "map_option (map_sum id (\<lambda>r. (map (\<lambda>(k, d). (k, contents d)) (run_files r), run_log r)))
     (permalinksPlugin example_env
        (permalinks example_env (OptionsObject
           (no_options\<lparr>duplicatesFail := True, relative := Some RelativeFalse\<rparr>)))
        [(''a.html'', example_doc ''A'' (PermalinkString ''foo'') []),
         (''b.html'', example_doc ''B'' (PermalinkString ''foo'') []),
         (''c.html'', example_doc ''C'' PermalinkAbsent [])])
   = Some (Inr ([(''foo/index.html'', ''A''), (''undefined'', ''B''), (''c/index.html'', ''C'')],
                [Commit ''foo/index.html'',
                 Done (Some ''Permalinks: Clash with another target file foo/index.html''),
                 Commit ''undefined'',
                 Commit ''c/index.html'',
                 Done None]))"
  by code_simp

text \<open>
  Claim C4 on the same collision: \<open>done\<close> is called with the error, and the call that
  \<open>setImmediate(done)\<close> scheduled at the start of the run follows, with no error.
\<close>

theorem done_called_twice_example:
  "map_option (map_sum id (\<lambda>r. filter (\<lambda>ev. case ev of Done x \<Rightarrow> True | _ \<Rightarrow> False) (run_log r)))
     (permalinksPlugin example_env
        (permalinks example_env (OptionsObject
           (no_options\<lparr>duplicatesFail := True, relative := Some RelativeFalse\<rparr>)))
        [(''a.html'', example_doc ''A'' (PermalinkString ''foo'') []),
         (''b.html'', example_doc ''B'' (PermalinkString ''foo'') [])])
   = Some (Inr [Done (Some ''Permalinks: Clash with another target file foo/index.html''), Done None])"
  by code_simp

section \<open>Staging and merging of family files\<close>

lemma stage_other:
  "p \<notin> fst ` set staged \<Longrightarrow>
   map_of (foldl (\<lambda>ds (rel, d). AList.update rel d ds) ds staged) p = map_of ds p"
  by (induction staged arbitrary: ds) (auto simp: update_conv')

lemma stage_keeps_keys:
  "map_of ds p \<noteq> None \<Longrightarrow>
   map_of (foldl (\<lambda>ds (rel, d). AList.update rel d ds) ds staged) p \<noteq> None"
  by (induction staged arbitrary: ds) (auto simp: update_conv')

lemma stage_distinct:
  "distinct (map fst ds) \<Longrightarrow>
   distinct (map fst (foldl (\<lambda>ds (rel, d). AList.update rel d ds) ds staged))"
  by (induction staged arbitrary: ds) (auto simp: distinct_update)


lemma commit_file_log:
  "\<exists>added. run_log (commit_file st file data ppath fam made) = run_log st @ added
      \<and> (\<forall>q. Merge q \<notin> set added)
      \<and> (Stage p \<notin> set added \<longrightarrow>
           map_of (run_dupes (commit_file st file data ppath fam made)) p = map_of (run_dupes st) p)"
proof -
  let ?staged = "map (\<lambda>(key, d). (path_join [ppath, key], d)) fam"
  let ?added = "(case made of Clash msg \<Rightarrow> [Done (Some msg)] | Target t \<Rightarrow> [])
      @ map (\<lambda>(rel, d). Stage rel) ?staged
      @ [Commit (case made of Clash msg \<Rightarrow> ''undefined'' | Target t \<Rightarrow> t)]"
  have "run_log (commit_file st file data ppath fam made) = run_log st @ ?added"
    by (simp add: commit_file_def Let_def)
  moreover have "Merge q \<notin> set ?added" for q
    by (cases made) auto
  moreover have "map_of (run_dupes (commit_file st file data ppath fam made)) p = map_of (run_dupes st) p"
    if "Stage p \<notin> set ?added"
  proof -
    from that have "p \<notin> fst ` set ?staged" by force
    then show ?thesis
      by (simp add: commit_file_def Let_def stage_other)
  qed
  ultimately show ?thesis by blast
qed

lemma commit_file_dupes:
  "(map_of (run_dupes st) p \<noteq> None \<longrightarrow> map_of (run_dupes (commit_file st file data ppath fam made)) p \<noteq> None)
   \<and> (distinct (map fst (run_dupes st)) \<longrightarrow> distinct (map fst (run_dupes (commit_file st file data ppath fam made))))"
  by (simp add: commit_file_def Let_def stage_keeps_keys stage_distinct)

lemma process_file_cases:
  assumes "process_file e cl st file = Some (Inr st')"
  shows "st' = st \<or> (\<exists>data ppath fam made. st' = commit_file st file data ppath fam made)"
  using assms
  by (auto simp: process_file_def Let_def split: option.splits sum.splits if_splits)

lemma process_file_log:
  assumes "process_file e cl st file = Some (Inr st')"
  shows "\<exists>added. run_log st' = run_log st @ added
      \<and> (\<forall>q. Merge q \<notin> set added)
      \<and> (Stage p \<notin> set added \<longrightarrow> map_of (run_dupes st') p = map_of (run_dupes st) p)"
  using process_file_cases [OF assms] commit_file_log [of st _ _ _ _ _ p]
  by (elim disjE exE) auto

lemma process_file_dupes:
  assumes "process_file e cl st file = Some (Inr st')"
  shows "(map_of (run_dupes st) p \<noteq> None \<longrightarrow> map_of (run_dupes st') p \<noteq> None)
   \<and> (distinct (map fst (run_dupes st)) \<longrightarrow> distinct (map fst (run_dupes st')))"
  using process_file_cases [OF assms] commit_file_dupes [of st p]
  by (elim disjE exE) auto

lemma forEach_file_log:
  assumes "forEach_file e cl keys st = Some (Inr st')"
  shows "\<exists>added. run_log st' = run_log st @ added
      \<and> (\<forall>q. Merge q \<notin> set added)
      \<and> (Stage p \<notin> set added \<longrightarrow> map_of (run_dupes st') p = map_of (run_dupes st) p)"
  using assms
proof (induction keys arbitrary: st)
  case Nil
  then show ?case by simp
next
  case (Cons key keys)
  from Cons.prems obtain st1 where
    one: "process_file e cl st key = Some (Inr st1)" and
    rest: "forEach_file e cl keys st1 = Some (Inr st')"
    by (auto split: option.splits sum.splits)
  from process_file_log [OF one, of p] obtain a1 where
    a1: "run_log st1 = run_log st @ a1" "\<forall>q. Merge q \<notin> set a1"
      "Stage p \<notin> set a1 \<longrightarrow> map_of (run_dupes st1) p = map_of (run_dupes st) p"
    by blast
  from Cons.IH [OF rest] obtain a2 where
    a2: "run_log st' = run_log st1 @ a2" "\<forall>q. Merge q \<notin> set a2"
      "Stage p \<notin> set a2 \<longrightarrow> map_of (run_dupes st') p = map_of (run_dupes st1) p"
    by blast
  have "run_log st' = run_log st @ (a1 @ a2)" using a1(1) a2(1) by simp
  moreover have "\<forall>q. Merge q \<notin> set (a1 @ a2)" using a1(2) a2(2) by simp
  moreover have "Stage p \<notin> set (a1 @ a2) \<longrightarrow> map_of (run_dupes st') p = map_of (run_dupes st) p"
    using a1(3) a2(3) by simp
  ultimately show ?case by blast
qed

lemma forEach_file_dupes:
  assumes "forEach_file e cl keys st = Some (Inr st')"
  shows "(map_of (run_dupes st) p \<noteq> None \<longrightarrow> map_of (run_dupes st') p \<noteq> None)
   \<and> (distinct (map fst (run_dupes st)) \<longrightarrow> distinct (map fst (run_dupes st')))"
  using assms
proof (induction keys arbitrary: st)
  case Nil
  then show ?case by simp
next
  case (Cons key keys)
  from Cons.prems obtain st1 where
    one: "process_file e cl st key = Some (Inr st1)" and
    rest: "forEach_file e cl keys st1 = Some (Inr st')"
    by (auto split: option.splits sum.splits)
  show ?case
    using process_file_dupes [OF one, of p] Cons.IH [OF rest] by blast
qed

lemma merge_fold:
  "foldl (\<lambda>s (dupe, d). s\<lparr>run_files := AList.update dupe d (run_files s),
                               run_log := run_log s @ [Merge dupe]\<rparr>) st ds
   = st\<lparr>run_files := foldl (\<lambda>fs (k, v). AList.update k v fs) (run_files st) ds,
         run_log := run_log st @ map (\<lambda>(dupe, d). Merge dupe) ds\<rparr>"
  by (induction ds arbitrary: st) (auto simp: case_prod_unfold)

lemma merge_dupes_eq:
  "merge_dupes st
   = st\<lparr>run_files := foldl (\<lambda>fs (k, v). AList.update k v fs) (run_files st) (run_dupes st),
         run_log := run_log st @ map (\<lambda>(dupe, d). Merge dupe) (run_dupes st)\<rparr>"
  by (simp add: merge_dupes_def merge_fold)

text \<open>
  What a step of the loop writes into the file set: the document, at its target. Every
  other entry of the file set is an entry that the file set held before the step.
\<close>

lemma stage_member:
  "p \<in> fst ` set staged \<Longrightarrow>
   map_of (foldl (\<lambda>ds (rel, d). AList.update rel d ds) ds staged) p \<noteq> None"
proof (induction staged arbitrary: ds)
  case Nil
  then show ?case by simp
next
  case (Cons kv staged)
  obtain k v where kv: "kv = (k, v)" by (cases kv)
  show ?case
  proof (cases "p \<in> fst ` set staged")
    case True
    then show ?thesis using Cons.IH by (simp add: kv)
  next
    case False
    with Cons.prems have "k = p" by (auto simp: kv)
    then have "map_of (AList.update k v ds) p \<noteq> None" by (simp add: update_conv')
    then show ?thesis using stage_keeps_keys by (simp add: kv)
  qed
qed

lemma commit_file_files:
  assumes "map_of (run_files (commit_file st file data ppath fam made)) k = Some d"
  shows "map_of (run_files st) k = Some d
       \<or> Commit k \<in> set (run_log (commit_file st file data ppath fam made))"
  using assms
  by (auto simp: commit_file_def Let_def update_conv' delete_conv' split: if_splits)

lemma commit_file_staged:
  assumes "Stage p \<in> set (run_log (commit_file st file data ppath fam made))"
  shows "Stage p \<in> set (run_log st)
       \<or> map_of (run_dupes (commit_file st file data ppath fam made)) p \<noteq> None"
proof -
  let ?staged = "map (\<lambda>(key, d). (path_join [ppath, key], d)) fam"
  from assms have "Stage p \<in> set (run_log st) \<or> p \<in> fst ` set ?staged"
    by (cases made) (force simp: commit_file_def Let_def)+
  then show ?thesis
  proof
    assume "Stage p \<in> set (run_log st)"
    then show ?thesis ..
  next
    assume "p \<in> fst ` set ?staged"
    from stage_member [OF this, of "run_dupes st"]
    show ?thesis by (simp add: commit_file_def Let_def)
  qed
qed

lemma process_file_files:
  assumes "process_file e cl st file = Some (Inr st')"
    and "map_of (run_files st') k = Some d"
  shows "map_of (run_files st) k = Some d \<or> Commit k \<in> set (run_log st')"
  using process_file_cases [OF assms(1)] assms(2) commit_file_files [of st _ _ _ _ _ k d]
  by (elim disjE exE) auto

lemma process_file_staged:
  assumes "process_file e cl st file = Some (Inr st')"
    and "Stage p \<in> set (run_log st')"
  shows "Stage p \<in> set (run_log st) \<or> map_of (run_dupes st') p \<noteq> None"
  using process_file_cases [OF assms(1)] assms(2) commit_file_staged [of p st]
  by (elim disjE exE) auto

lemma forEach_file_files:
  assumes "forEach_file e cl keys st = Some (Inr st')"
    and "map_of (run_files st') k = Some d"
  shows "map_of (run_files st) k = Some d \<or> Commit k \<in> set (run_log st')"
  using assms
proof (induction keys arbitrary: st)
  case Nil
  then show ?case by simp
next
  case (Cons key keys)
  from Cons.prems(1) obtain st1 where
    one: "process_file e cl st key = Some (Inr st1)" and
    rest: "forEach_file e cl keys st1 = Some (Inr st')"
    by (auto split: option.splits sum.splits)
  from forEach_file_log [OF rest, of k] have grow: "set (run_log st1) \<subseteq> set (run_log st')"
    by auto
  from Cons.IH [OF rest Cons.prems(2)] show ?case
  proof
    assume "map_of (run_files st1) k = Some d"
    from process_file_files [OF one this] grow show ?thesis by auto
  next
    assume "Commit k \<in> set (run_log st')"
    then show ?thesis ..
  qed
qed

lemma forEach_file_staged:
  assumes "forEach_file e cl keys st = Some (Inr st')"
    and "Stage p \<in> set (run_log st')"
  shows "Stage p \<in> set (run_log st) \<or> map_of (run_dupes st') p \<noteq> None"
  using assms
proof (induction keys arbitrary: st)
  case Nil
  then show ?case by simp
next
  case (Cons key keys)
  from Cons.prems(1) obtain st1 where
    one: "process_file e cl st key = Some (Inr st1)" and
    rest: "forEach_file e cl keys st1 = Some (Inr st')"
    by (auto split: option.splits sum.splits)
  from Cons.IH [OF rest Cons.prems(2)] show ?case
  proof
    assume "Stage p \<in> set (run_log st1)"
    from process_file_staged [OF one this] forEach_file_dupes [OF rest, of p]
    show ?thesis by auto
  next
    assume "map_of (run_dupes st') p \<noteq> None"
    then show ?thesis ..
  qed
qed

text \<open>
  Claim C9: in a run that returns, the loop over the documents ends in a state \<open>st\<close> in
  which no write \<open>files[dupe] = dupes[dupe]\<close> has happened. At every point of the loop,
  that is after any number \<open>ks\<close> of the keys, and so when it ends, every entry of the file
  set is an entry of the file set that the run was given or sits at a key at which a
  document has been committed: no staged family file has been inserted. Every path
  staged so far is a key of \<open>dupes\<close>. The run then writes the entries of \<open>dupes\<close> into the
  file set that the loop left, and all these writes come after every commit of a
  document.
\<close>

theorem merges_follow_commits:
  assumes "permalinksPlugin e cl files = Some (Inr r)"
  shows "\<exists>st. forEach_file e cl (map fst files)
                \<lparr>run_files = files, run_dupes = cl_dupes cl, run_log = []\<rparr> = Some (Inr st)
            \<and> (\<forall>ks st'. prefix ks (map fst files)
                  \<and> forEach_file e cl ks \<lparr>run_files = files, run_dupes = cl_dupes cl, run_log = []\<rparr>
                    = Some (Inr st') \<longrightarrow>
                  (\<forall>k d. map_of (run_files st') k = Some d \<longrightarrow>
                     map_of files k = Some d \<or> Commit k \<in> set (run_log st'))
                  \<and> (\<forall>p. Stage p \<in> set (run_log st') \<longrightarrow> map_of (run_dupes st') p \<noteq> None)
                  \<and> (\<forall>q. Merge q \<notin> set (run_log st')))
            \<and> (\<forall>k d. map_of (run_files st) k = Some d \<longrightarrow>
                  map_of files k = Some d \<or> Commit k \<in> set (run_log st))
            \<and> (\<forall>p. Stage p \<in> set (run_log st) \<longrightarrow> map_of (run_dupes st) p \<noteq> None)
            \<and> (\<forall>q. Merge q \<notin> set (run_log st))
            \<and> run_log r = run_log st @ map Merge (map fst (run_dupes st)) @ [Done None]
            \<and> run_files r = foldl (\<lambda>fs (k, v). AList.update k v fs) (run_files st) (run_dupes st)"
proof -
  let ?st0 = "\<lparr>run_files = files, run_dupes = cl_dupes cl, run_log = []\<rparr>"
  have inv: "(\<forall>k d. map_of (run_files st') k = Some d \<longrightarrow>
                 map_of files k = Some d \<or> Commit k \<in> set (run_log st'))
           \<and> (\<forall>p. Stage p \<in> set (run_log st') \<longrightarrow> map_of (run_dupes st') p \<noteq> None)
           \<and> (\<forall>q. Merge q \<notin> set (run_log st'))"
    if "forEach_file e cl ks ?st0 = Some (Inr st')" for ks st'
  proof (intro conjI allI impI)
    fix k d assume "map_of (run_files st') k = Some d"
    from forEach_file_files [OF that this]
    show "map_of files k = Some d \<or> Commit k \<in> set (run_log st')" by simp
  next
    fix p assume "Stage p \<in> set (run_log st')"
    from forEach_file_staged [OF that this]
    show "map_of (run_dupes st') p \<noteq> None" by simp
  next
    fix q
    from forEach_file_log [OF that] show "Merge q \<notin> set (run_log st')" by auto
  qed
  from assms obtain st where
    loop: "forEach_file e cl (map fst files) ?st0 = Some (Inr st)" and
    r: "r = (merge_dupes st)\<lparr>run_log := run_log (merge_dupes st) @ [Done None]\<rparr>"
    by (auto simp: permalinksPlugin_def Let_def split: option.splits sum.splits)
  have "run_log r = run_log st @ map Merge (map fst (run_dupes st)) @ [Done None]"
    by (simp add: r merge_dupes_eq case_prod_unfold comp_def)
  moreover have "run_files r = foldl (\<lambda>fs (k, v). AList.update k v fs) (run_files st) (run_dupes st)"
    by (simp add: r merge_dupes_eq)
  ultimately show ?thesis using loop inv [OF loop] inv by blast
qed

text \<open>
  On the example of \<open>post/article.html\<close>: when the loop ends, the image is staged in
  \<open>dupes\<close> but \<open>post-slug/image.png\<close> is not a key of the file set; the merge adds it after
  the commit.
\<close>

theorem merges_follow_commits_witness:
  "\<exists>r st. permalinksPlugin example_env
              (permalinks example_env (OptionsObject (no_options\<lparr>relative := Some RelativeTrue\<rparr>)))
              [(''post/article.html'', example_doc ''see image.png'' (PermalinkString ''post-slug'') []),
               (''post/image.png'', example_doc ''PNG'' PermalinkAbsent [])] = Some (Inr r)
         \<and> forEach_file example_env
              (permalinks example_env (OptionsObject (no_options\<lparr>relative := Some RelativeTrue\<rparr>)))
              [''post/article.html'', ''post/image.png'']
              \<lparr>run_files =
                 [(''post/article.html'', example_doc ''see image.png'' (PermalinkString ''post-slug'') []),
                  (''post/image.png'', example_doc ''PNG'' PermalinkAbsent [])],
               run_dupes = [], run_log = []\<rparr> = Some (Inr st)
         \<and> run_log st = [Stage ''post-slug/image.png'', Commit ''post-slug/index.html'']
         \<and> map_of (run_dupes st) ''post-slug/image.png'' = Some (example_doc ''PNG'' PermalinkAbsent [])
         \<and> map_of (run_files st) ''post-slug/image.png'' = None
         \<and> run_log r = [Stage ''post-slug/image.png'', Commit ''post-slug/index.html'',
                          Merge ''post-slug/image.png'', Done None]
         \<and> map_of (run_files r) ''post-slug/image.png'' = Some (example_doc ''PNG'' PermalinkAbsent [])"
proof -
  let ?cl = "permalinks example_env (OptionsObject (no_options\<lparr>relative := Some RelativeTrue\<rparr>))"
  let ?files = "[(''post/article.html'', example_doc ''see image.png'' (PermalinkString ''post-slug'') []),
               (''post/image.png'', example_doc ''PNG'' PermalinkAbsent [])]"
  have "map_option (map_sum id (\<lambda>r. (run_log r, map_of (run_files r) ''post-slug/image.png'')))
          (permalinksPlugin example_env ?cl ?files)
        = Some (Inr ([Stage ''post-slug/image.png'', Commit ''post-slug/index.html'',
                      Merge ''post-slug/image.png'', Done None],
                     Some (example_doc ''PNG'' PermalinkAbsent [])))"
    by code_simp
  then obtain r where run: "permalinksPlugin example_env ?cl ?files = Some (Inr r)"
    and log: "run_log r = [Stage ''post-slug/image.png'', Commit ''post-slug/index.html'',
                          Merge ''post-slug/image.png'', Done None]"
    and merged: "map_of (run_files r) ''post-slug/image.png'' = Some (example_doc ''PNG'' PermalinkAbsent [])"
    by (cases "permalinksPlugin example_env ?cl ?files"; cases "the (permalinksPlugin example_env ?cl ?files)") auto
  have start: "cl_dupes ?cl = []" "map fst ?files = [''post/article.html'', ''post/image.png'']"
    by (simp_all add: permalinks_def Let_def)
  have dupes: "map_option (map_sum id run_dupes)
          (forEach_file example_env ?cl (map fst ?files)
             \<lparr>run_files = ?files, run_dupes = cl_dupes ?cl, run_log = []\<rparr>)
        = Some (Inr [(''post-slug/image.png'', example_doc ''PNG'' PermalinkAbsent [])])"
    by code_simp
  from merges_follow_commits [OF run] obtain st where
    loop: "forEach_file example_env ?cl (map fst ?files)
       \<lparr>run_files = ?files, run_dupes = cl_dupes ?cl, run_log = []\<rparr> = Some (Inr st)" and
    files: "\<forall>k d. map_of (run_files st) k = Some d \<longrightarrow>
                  map_of ?files k = Some d \<or> Commit k \<in> set (run_log st)" and
    merges: "run_log r = run_log st @ map Merge (map fst (run_dupes st)) @ [Done None]"
    by blast
  from dupes loop have d: "run_dupes st = [(''post-slug/image.png'', example_doc ''PNG'' PermalinkAbsent [])]"
    by simp
  from merges log d have l: "run_log st = [Stage ''post-slug/image.png'', Commit ''post-slug/index.html'']"
    by simp
  have absent: "map_of (run_files st) ''post-slug/image.png'' = None"
  proof (cases "map_of (run_files st) ''post-slug/image.png''")
    case None
    then show ?thesis .
  next
    case (Some d)
    with files have "map_of ?files ''post-slug/image.png'' = Some d
        \<or> Commit ''post-slug/image.png'' \<in> set (run_log st)"
      by blast
    then show ?thesis by (simp add: l)
  qed
  show ?thesis
    apply (rule exI [of _ r], rule exI [of _ st])
    using run loop l d absent log merged start by simp
qed

text \<open>
  The loop that keeps its last state and the invocation built on it agree with
  \<open>forEach_file\<close> and \<open>permalinksPlugin\<close>.
\<close>

lemma forEach_file_state:
  "forEach_file e cl keys st =
     (case forEach_state e cl keys st of
        None \<Rightarrow> None
      | Some (st', None) \<Rightarrow> Some (Inr st')
      | Some (st', Some err) \<Rightarrow> Some (Inl err))"
  by (induction keys arbitrary: st) (auto split: option.splits sum.splits)

lemma invocation_permalinksPlugin:
  "permalinksPlugin e cl files =
     map_option (\<lambda>oc. case oc of Returned r \<Rightarrow> Inr r | Raised err st \<Rightarrow> Inl err) (invocation e cl files)"
  by (simp add: permalinksPlugin_def invocation_def forEach_file_state Let_def
        split: option.splits prod.splits)









end
